theory Spec2Isabelle
  imports Complex_Main "HOL-Library.Word"
begin

section \<open>Selected particles: \<open>Propagator::getSelectedParticleIndexes\<close>\<close>

text \<open>
  Source: \<^verbatim>\<open>src/main/src/propagator/ipropagator.hpp\<close>, lines 149-169.

  \<^verbatim>\<open>ParticleIndexVectorType\<close> is a field vector of \<^verbatim>\<open>uint64_t\<close>: particle ids and the
  returned positions are 64-bit words.  The particle data type is not part of the
  sources at hand; the three members the function reads are taken as the fields of a
  record: the output field names, the output field indices and the array of field
  variants returned by \<^verbatim>\<open>data()\<close>.  A field variant either points to a vector of
  \<^verbatim>\<open>uint64_t\<close> or to a vector of another element type, whose content the function
  never reads.
\<close>

type_synonym ParticleIndexVectorType = "64 word list"

datatype FieldVariant = IndexVector ParticleIndexVectorType | OtherVector nat

record HydroData =
  outputFieldNames :: "string list"
  outputFieldIndices :: "int list"
  data :: "FieldVariant list"

text \<open>
  What the C++ leaves undefined or answers with an exception is a value of the model:
  reading a vector or an array past its end, and \<^verbatim>\<open>std::get\<close> on a variant that holds
  another alternative.
\<close>

datatype error = OutOfRange | BadVariantAccess

text \<open>
  \<^verbatim>\<open>std::find(v.begin(), v.end(), a) - v.begin()\<close>: the position of the first element
  equal to \<open>a\<close>, and the size of the vector when there is none.
\<close>

fun std_find :: "'a list \<Rightarrow> 'a \<Rightarrow> nat" where
  "std_find [] a = 0"
| "std_find (x # xs) a = (if x = a then 0 else Suc (std_find xs a))"

text \<open>
  The column of the id field:
  \<^verbatim>\<open>outputFieldIndices[find(outputFieldNames, "id") - outputFieldNames.begin()]\<close>.
\<close>

definition idColumn :: "HydroData \<Rightarrow> error + int" where
  "idColumn h =
     (let pos = std_find (outputFieldNames h) ''id''
      in if pos < length (outputFieldIndices h)
         then Inr (outputFieldIndices h ! pos) else Inl OutOfRange)"

text \<open>\<^verbatim>\<open>std::get<ParticleIndexVectorType*>(hydroSimData.data()[idColumn])\<close>\<close>

definition localParticleIds :: "HydroData \<Rightarrow> error + ParticleIndexVectorType" where
  "localParticleIds h =
     (case idColumn h of
        Inl e \<Rightarrow> Inl e
      | Inr c \<Rightarrow>
          if 0 \<le> c \<and> nat c < length (data h)
          then (case data h ! nat c of
                  IndexVector ids \<Rightarrow> Inr ids
                | OtherVector _ \<Rightarrow> Inl BadVariantAccess)
          else Inl OutOfRange)"

text \<open>
  The body of the \<^verbatim>\<open>std::for_each\<close>: one requested id is looked up in the local ids,
  and its position is pushed when it is smaller than the size of the local ids.  The
  position is a \<^verbatim>\<open>ptrdiff_t\<close> stored into a vector of \<^verbatim>\<open>uint64_t\<close>.
\<close>

definition selectOne ::
  "ParticleIndexVectorType \<Rightarrow> ParticleIndexVectorType \<Rightarrow> 64 word \<Rightarrow> ParticleIndexVectorType" where
  "selectOne ids acc selParticleId =
     (let selParticleIndex = std_find ids selParticleId
      in if selParticleIndex < length ids then acc @ [of_nat selParticleIndex] else acc)"

definition getSelectedParticleIndexes ::
  "ParticleIndexVectorType \<Rightarrow> HydroData \<Rightarrow> error + ParticleIndexVectorType" where
  "getSelectedParticleIndexes selParticlesIds h =
     (case localParticleIds h of
        Inl e \<Rightarrow> Inl e
      | Inr ids \<Rightarrow> Inr (foldl (selectOne ids) [] selParticlesIds))"

section \<open>Kelvin-Helmholtz initialisation: \<open>KelvinHelmholtzGlass::init\<close>\<close>

text \<open>
  Source: the Kelvin-Helmholtz initialiser (\<^verbatim>\<open>src/unnamed/part_002\<close>, lines 111-306 of
  the file, the class \<^verbatim>\<open>KelvinHelmholtzGlass\<close> and \<^verbatim>\<open>initKelvinHelmholtzFields\<close>).

  \<^verbatim>\<open>T\<close> is the dataset's real type; it is modelled by \<^typ>\<open>real\<close>.  The numbers the
  box is built from (0, 1, 0.0625, 0.25, 0.75) are dyadic and are held exactly by a
  binary floating-point type.  \<^verbatim>\<open>int\<close> and \<^verbatim>\<open>size_t\<close> values are unbounded \<^typ>\<open>int\<close>
  and \<^typ>\<open>nat\<close>.

  \<^verbatim>\<open>cstone::Box\<close> and \<^verbatim>\<open>cstone::BoundaryType\<close> are declared outside the sources at hand
  (\<^verbatim>\<open>cstone/sfc/box.hpp\<close>).
\<close>

text \<open>
  Modelled from the spec: the boundary kind of an axis, whose declaration
  \<^verbatim>\<open>cstone::BoundaryType\<close> is missing.  ``a per-axis boundary kind (open or periodic)''.
\<close>

datatype BoundaryType = open_boundary | periodic

text \<open>
  Modelled from the spec: the bounding box, whose declaration \<^verbatim>\<open>cstone::Box\<close> is missing.
  ``Bounding Box: global simulation extent on each axis plus a per-axis boundary
  kind''.  The fields carry the names of the accessors the initialiser calls
  (\<^verbatim>\<open>xmin()\<close>, \<^verbatim>\<open>xmax()\<close>, ...).
\<close>

record Box =
  xmin :: real
  xmax :: real
  ymin :: real
  ymax :: real
  zmin :: real
  zmax :: real
  boundaryX :: BoundaryType
  boundaryY :: BoundaryType
  boundaryZ :: BoundaryType

text \<open>
  Modelled from the spec: the constructor of the box with nine arguments, as the
  initialiser calls it: the two extents of the x, y and z axes and the three boundary
  kinds.
\<close>

definition mkBox ::
  "real \<Rightarrow> real \<Rightarrow> real \<Rightarrow> real \<Rightarrow> real \<Rightarrow> real
     \<Rightarrow> BoundaryType \<Rightarrow> BoundaryType \<Rightarrow> BoundaryType \<Rightarrow> Box" where
  "mkBox x0 x1 y0 y1 z0 z1 bx by bz =
     \<lparr>xmin = x0, xmax = x1, ymin = y0, ymax = y1, zmin = z0, zmax = z1,
      boundaryX = bx, boundaryY = by, boundaryZ = bz\<rparr>"

text \<open>
  The hydro dataset \<^verbatim>\<open>simData.hydro\<close>, with the fields the initialiser reads or
  writes.  The field \<^verbatim>\<open>d.x\<close> is \<open>d_x\<close>, and so on.
\<close>

record ParticlesData =
  d_x :: "real list"
  d_y :: "real list"
  d_z :: "real list"
  d_vx :: "real list"
  d_vy :: "real list"
  d_vz :: "real list"
  d_h :: "real list"
  d_temp :: "real list"
  d_m :: "real list"
  d_du_m1 :: "real list"
  d_mue :: "real list"
  d_mui :: "real list"
  d_alpha :: "real list"
  d_x_m1 :: "real list"
  d_y_m1 :: "real list"
  d_z_m1 :: "real list"
  d_gamma :: real
  d_Kcour :: real
  d_minDt :: real
  d_minDt_m1 :: real
  d_alphamax :: real
  d_muiConst :: real
  d_numParticlesGlobal :: nat

type_synonym coords = "real list \<times> real list \<times> real list"

text \<open>
  The functions the initialiser calls that are defined outside the sources at hand are
  parameters of the model: reading the glass block from a file (\<open>None\<close> when the read
  does not return), sorting the block along the space-filling curve, the key segment of
  a rank, the assembly of a cuboid of particles (it appends to the three coordinate
  vectors it is given), the sum over all ranks of \<^verbatim>\<open>MPI_Allreduce\<close>, the exchange of
  coordinates, the resizing of the dataset and the specific heat of the ideal gas.  The
  functions that are handed a box (the cuboid assembly and the exchange of coordinates)
  read it and return new coordinate vectors; the model takes them not to write to the
  box.  \<open>'k\<close> is the key type.
\<close>

record 'k Collaborators =
  readTemplateBlock :: "string \<Rightarrow> coords option"
  sortBySfcKey :: "coords \<Rightarrow> coords"
  equiDistantSfcSegments :: "int \<Rightarrow> int \<Rightarrow> nat \<Rightarrow> 'k \<times> 'k"
  assembleCuboid :: "'k \<Rightarrow> 'k \<Rightarrow> Box \<Rightarrow> int \<times> int \<times> int \<Rightarrow> coords \<Rightarrow> coords \<Rightarrow> coords"
  allreduceSum :: "nat \<Rightarrow> nat"
  syncCoords :: "int \<Rightarrow> int \<Rightarrow> nat \<Rightarrow> coords \<Rightarrow> Box \<Rightarrow> coords"
  resize :: "nat \<Rightarrow> ParticlesData \<Rightarrow> ParticlesData"
  idealGasCv :: "real \<Rightarrow> real \<Rightarrow> real"

datatype init_error = ReadFailed | MapKeyMissing | IndexOutOfRange | InvalidConversion

definition bindE :: "init_error + 'a \<Rightarrow> ('a \<Rightarrow> init_error + 'b) \<Rightarrow> init_error + 'b" where
  "bindE r f = (case r of Inl e \<Rightarrow> Inl e | Inr v \<Rightarrow> f v)"

text \<open>\<^verbatim>\<open>KelvinHelmholtzConstants()\<close> and \<^verbatim>\<open>std::map::at\<close>, which throws on a missing key.\<close>

definition KelvinHelmholtzConstants :: "(string \<times> real) list" where
  "KelvinHelmholtzConstants =
     [(''rhoInt'', 2), (''rhoExt'', 1), (''vxExt'', 0.5), (''vxInt'', -0.5), (''gamma'', 5 / 3),
      (''firstTimeStep'', 1 / 10 ^ 7), (''p'', 2.5), (''omega0'', 0.01), (''Kcour'', 0.4)]"

definition mapAt :: "(string \<times> real) list \<Rightarrow> string \<Rightarrow> init_error + real" where
  "mapAt constants k = (case map_of constants k of None \<Rightarrow> Inl MapKeyMissing | Some v \<Rightarrow> Inr v)"

text \<open>\<^verbatim>\<open>std::fill(v.begin(), v.end(), a)\<close>\<close>

definition fill :: "real list \<Rightarrow> real \<Rightarrow> real list" where
  "fill v a = replicate (length v) a"

text \<open>
  One iteration of the loop of \<^verbatim>\<open>initKelvinHelmholtzFields\<close> (the iterations write
  disjoint positions, so the parallel loop is the sequential one).
\<close>

definition initFieldsStep ::
  "real \<Rightarrow> real \<Rightarrow> real \<Rightarrow> real \<Rightarrow> real \<Rightarrow> real \<Rightarrow> real \<Rightarrow> real \<Rightarrow> real \<Rightarrow> real \<Rightarrow> real
     \<Rightarrow> ParticlesData \<Rightarrow> nat \<Rightarrow> ParticlesData" where
  "initFieldsStep omega0 hInt hExt uInt uExt cv vxInt vxExt vDif ls firstTimeStep d i =
     (let yi = d_y d ! i;
          d1 = d\<lparr>d_vy := (d_vy d)[i := omega0 * sin (4 * pi * (d_x d ! i))]\<rparr>;
          d2 = (if yi < 0.75 \<and> yi > 0.25
                then d1\<lparr>d_h := (d_h d1)[i := hInt],
                        d_temp := (d_temp d1)[i := uInt / cv],
                        d_vx := (d_vx d1)[i := (if yi > 0.5
                                                then vxInt + vDif * exp ((yi - 0.75) / ls)
                                                else vxInt + vDif * exp ((0.25 - yi) / ls))]\<rparr>
                else d1\<lparr>d_h := (d_h d1)[i := hExt],
                        d_temp := (d_temp d1)[i := uExt / cv],
                        d_vx := (d_vx d1)[i := (if yi < 0.25
                                                then vxExt - vDif * exp ((yi - 0.25) / ls)
                                                else vxExt - vDif * exp ((0.75 - yi) / ls))]\<rparr>)
      in d2\<lparr>d_x_m1 := (d_x_m1 d2)[i := d_vx d2 ! i * firstTimeStep],
             d_y_m1 := (d_y_m1 d2)[i := d_vy d2 ! i * firstTimeStep],
             d_z_m1 := (d_z_m1 d2)[i := d_vz d2 ! i * firstTimeStep]\<rparr>)"

text \<open>
  The loop reads and writes position \<open>i\<close> of ten fields for every \<open>i\<close> below the size of
  \<^verbatim>\<open>d.x\<close>; a shorter field is an access past its end.
\<close>

definition fieldsCoverX :: "ParticlesData \<Rightarrow> bool" where
  "fieldsCoverX d =
     list_all (\<lambda>f. length (d_x d) \<le> length (f d))
       [d_y, d_vx, d_vy, d_vz, d_h, d_temp, d_x_m1, d_y_m1, d_z_m1]"

definition initKelvinHelmholtzFields ::
  "'k Collaborators \<Rightarrow> ParticlesData \<Rightarrow> (string \<times> real) list \<Rightarrow> real
     \<Rightarrow> init_error + ParticlesData" where
  "initKelvinHelmholtzFields env d constants massPart =
     bindE (mapAt constants ''rhoInt'') (\<lambda>rhoInt.
     bindE (mapAt constants ''rhoExt'') (\<lambda>rhoExt.
     bindE (mapAt constants ''firstTimeStep'') (\<lambda>firstTimeStep.
     bindE (mapAt constants ''omega0'') (\<lambda>omega0.
     bindE (mapAt constants ''gamma'') (\<lambda>gamma.
     bindE (mapAt constants ''p'') (\<lambda>p.
     bindE (mapAt constants ''vxInt'') (\<lambda>vxInt.
     bindE (mapAt constants ''vxExt'') (\<lambda>vxExt.
       let uInt = p / ((gamma - 1) * rhoInt);
           uExt = p / ((gamma - 1) * rhoExt);
           vDif = 0.5 * (vxExt - vxInt);
           ls = 0.025;
           ng0 = (100 :: nat);
           hInt = 0.5 * root 3 (3 * real ng0 * massPart / 4 / pi / rhoInt);
           hExt = 0.5 * root 3 (3 * real ng0 * massPart / 4 / pi / rhoExt);
           d1 = d\<lparr>d_m := fill (d_m d) massPart,
                   d_du_m1 := fill (d_du_m1 d) 0,
                   d_mue := fill (d_mue d) 2,
                   d_mui := fill (d_mui d) 10,
                   d_alpha := fill (d_alpha d) (d_alphamax d),
                   d_vz := fill (d_vz d) 0\<rparr>
       in
     bindE (mapAt constants ''gamma'') (\<lambda>gamma'.
     bindE (mapAt constants ''Kcour'') (\<lambda>Kcour.
       let d2 = d1\<lparr>d_gamma := gamma', d_Kcour := Kcour,
                    d_minDt := firstTimeStep, d_minDt_m1 := firstTimeStep\<rparr>;
           cv = idealGasCv env (d_muiConst d2) gamma
       in if fieldsCoverX d2
          then Inr (foldl (initFieldsStep omega0 hInt hExt uInt uExt cv vxInt vxExt vDif ls
                              firstTimeStep)
                      d2 [0 ..< length (d_x d2)])
          else Inl IndexOutOfRange))))))))))"

text \<open>
  \<^verbatim>\<open>std::rint\<close> under the default rounding mode: the nearest integer, the even one of
  two nearest.
\<close>

definition rint :: "real \<Rightarrow> int" where
  "rint r =
     (let f = \<lfloor>r\<rfloor>
      in if r - of_int f < 1 / 2 then f
         else if 1 / 2 < r - of_int f then f + 1
         else if even f then f else f + 1)"

text \<open>
  The loop of \<^verbatim>\<open>init\<close> over the particles of the first layer: the position is
  stretched, and when it still lies in the first layer it is pushed to the dataset
  together with its mirror image in the third layer.
\<close>

definition inBox :: "Box \<Rightarrow> real \<Rightarrow> real \<Rightarrow> real \<Rightarrow> bool" where
  "inBox b u v w \<longleftrightarrow>
     u \<ge> xmin b \<and> u < xmax b \<and> v \<ge> ymin b \<and> v < ymax b \<and> w \<ge> zmin b \<and> w < zmax b"

definition cropAndMirror ::
  "Box \<Rightarrow> real \<Rightarrow> real \<Rightarrow> ParticlesData \<Rightarrow> real \<times> real \<times> real \<Rightarrow> ParticlesData" where
  "cropAndMirror layer1 stretch topEdge d X =
     (case X of (xi, yi, zi) \<Rightarrow>
        let X0 = xi * stretch; X1 = yi * stretch; X2 = zi * stretch
        in if inBox layer1 X0 X1 X2
           then let yLayer3 = - X1 + topEdge
                in d\<lparr>d_x := d_x d @ [X0, X0],
                     d_y := d_y d @ [X1, yLayer3],
                     d_z := d_z d @ [X2, X2]\<rparr>
           else d)"

text \<open>
  \<^verbatim>\<open>KelvinHelmholtzGlass::init\<close>.  The object's members are the name of the glass block
  (an argument of the model) and the constants, which the constructor sets to
  \<^verbatim>\<open>KelvinHelmholtzConstants()\<close>.  The result is the returned box and the dataset as the
  call leaves it.  With an empty block the quotient handed to \<^verbatim>\<open>std::rint\<close> is not
  finite and its conversion to \<^verbatim>\<open>int\<close> is undefined.
\<close>

definition init ::
  "'k Collaborators \<Rightarrow> string \<Rightarrow> int \<Rightarrow> int \<Rightarrow> nat \<Rightarrow> ParticlesData
     \<Rightarrow> init_error + (Box \<times> ParticlesData)" where
  "init env glassBlock rank numRanks cbrtNumPart d =
     (let pbc = periodic
      in case readTemplateBlock env glassBlock of
           None \<Rightarrow> Inl ReadFailed
         | Some block0 \<Rightarrow>
             (case sortBySfcKey env block0 of (xBlock, yBlock, zBlock) \<Rightarrow>
                let globalBox = mkBox 0 1 0 1 0 0.0625 pbc pbc pbc
                in case equiDistantSfcSegments env rank numRanks 100 of (keyStart, keyEnd) \<Rightarrow>
                   if xBlock = [] then Inl InvalidConversion
                   else
                     let multi1D = rint (real cbrtNumPart / root 3 (real (length xBlock)));
                         innerMulti = (16 * multi1D, 8 * multi1D, multi1D);
                         outerMulti = (16 * multi1D, 4 * multi1D, multi1D);
                         layer1 = mkBox 0 1 0 0.25 0 0.0625 pbc pbc pbc;
                         layer2 = mkBox 0 1 0.25 0.75 0 0.0625 pbc pbc pbc;
                         layer3 = mkBox 0 1 0.75 1 0 0.0625 pbc pbc pbc
                     in case assembleCuboid env keyStart keyEnd layer1 outerMulti
                               (xBlock, yBlock, zBlock) ([], [], []) of (x, y, z) \<Rightarrow>
                        let stretch = root 3 2;
                            topEdge = ymax layer3
                        in if length y < length x \<or> length z < length x then Inl IndexOutOfRange
                           else
                             let d1 = foldl (cropAndMirror layer1 stretch topEdge) d
                                        (zip x (zip y z))
                             in case assembleCuboid env keyStart keyEnd layer2 innerMulti
                                       (xBlock, yBlock, zBlock) (d_x d1, d_y d1, d_z d1) of
                                  (x2, y2, z2) \<Rightarrow>
                                let d2 = d1\<lparr>d_x := x2, d_y := y2, d_z := z2\<rparr>;
                                    d3 = d2\<lparr>d_numParticlesGlobal := allreduceSum env (length (d_x d2))\<rparr>
                                in case syncCoords env rank numRanks (d_numParticlesGlobal d3)
                                          (d_x d3, d_y d3, d_z d3) globalBox of
                                     (x3, y3, z3) \<Rightarrow>
                                   let d4 = d3\<lparr>d_x := x3, d_y := y3, d_z := z3\<rparr>;
                                       npartInner = 128 * length xBlock;
                                       volumeHD = 0.5 * 0.0625
                                   in bindE (mapAt KelvinHelmholtzConstants ''rhoInt'') (\<lambda>rhoInt.
                                        let particleMass = volumeHD * rhoInt / real npartInner;
                                            d5 = resize env (length (d_x d4)) d4
                                        in bindE (initKelvinHelmholtzFields env d5
                                                    KelvinHelmholtzConstants particleMass)
                                             (\<lambda>d6. Inr (globalBox, d6)))))"

section \<open>Cornerstone octree builder\<close>

text \<open>
  The octree builder (the construction and the update of the cornerstone octree) is
  not part of the sources at hand.  Every definition of this section is modelled from
  sections 3 and 4.2 of the specification, and says so.

  Keys are natural numbers.  \<open>L\<close> is the maximum refinement depth that the bit-width of
  the key type allows (three bits per level); the key space is \<open>{0 ..< 8 ^ L}\<close>.
\<close>

text \<open>
  Modelled from the spec: the octree node, which the missing builder works on.
  ``Octree Node: represented implicitly as a (key, level) pair denoting a cubic
  sub-box; has 8 children or is a leaf''.  A tree is the list of its leaves in key
  order.
\<close>

type_synonym node = "nat \<times> nat"

text \<open>
  Modelled from the spec: the number of keys in the range of a node of level \<open>l\<close>; a
  node has 8 children, so a level divides the range by 8, and a node of level \<open>L\<close> is a
  single key.
\<close>

definition nodeRange :: "nat \<Rightarrow> nat \<Rightarrow> nat" where
  "nodeRange L l = 8 ^ (L - l)"

text \<open>Modelled from the spec: the first key of the key range of a node.\<close>

definition keyStart :: "node \<Rightarrow> nat" where
  "keyStart nd = fst nd"

text \<open>
  Modelled from the spec: the end of the key range of a node, ``[startKey, endKey)'':
  the first key after the range.
\<close>

definition keyEnd :: "nat \<Rightarrow> node \<Rightarrow> nat" where
  "keyEnd L nd = fst nd + nodeRange L (snd nd)"

text \<open>Modelled from the spec: the level of a node, the root being at level 0.\<close>

definition level :: "node \<Rightarrow> nat" where
  "level nd = snd nd"

text \<open>
  Modelled from the spec: the binary search of the counting pass, ``binary search of
  key boundaries against the sorted key array''.  \<open>lowerBound keys k\<close> is the position a
  binary search for the boundary \<open>k\<close> finds in a sorted key array: the position of the
  first key that is not below \<open>k\<close>.
\<close>

definition lowerBound :: "nat list \<Rightarrow> nat \<Rightarrow> nat" where
  "lowerBound keys k = length (takeWhile (\<lambda>x. x < k) keys)"

text \<open>
  Modelled from the spec: the counted particles of a node, ``recompute leaf particle
  counts via a counting pass'': the difference of the positions of the two boundaries
  of the node in the key array.
\<close>

definition countNode :: "nat \<Rightarrow> nat list \<Rightarrow> node \<Rightarrow> nat" where
  "countNode L keys nd = lowerBound keys (keyEnd L nd) - lowerBound keys (keyStart nd)"

text \<open>
  Modelled from the spec: a key falls in a leaf, ``every particle's key falls in
  exactly one leaf'', when it lies in the key range of the leaf.
\<close>

definition holds :: "nat \<Rightarrow> node \<Rightarrow> nat \<Rightarrow> bool" where
  "holds L nd k \<longleftrightarrow> keyStart nd \<le> k \<and> k < keyEnd L nd"

text \<open>
  Modelled from the spec: the number of particles a leaf holds, the particles whose
  key falls in the leaf.
\<close>

definition particlesIn :: "nat \<Rightarrow> nat list \<Rightarrow> node \<Rightarrow> nat" where
  "particlesIn L keys nd = length (filter (holds L nd) keys)"

text \<open>
  Modelled from the spec: the 8 children of a node, ``split ... into 8 children''.
  They divide the key range of the node into eight equal parts one level below.
\<close>

definition children :: "nat \<Rightarrow> node \<Rightarrow> node list" where
  "children L nd = map (\<lambda>i. (fst nd + i * nodeRange L (Suc (snd nd)), Suc (snd nd))) [0 ..< 8]"

text \<open>
  Modelled from the spec: the split decision, ``split any leaf whose counted particles
  exceed bucketSize into 8 children'', ``except leaves already at the maximum allowed
  refinement depth (bit-width limit), which may exceed it''.
\<close>

definition mustSplit :: "nat \<Rightarrow> nat list \<Rightarrow> nat \<Rightarrow> node \<Rightarrow> bool" where
  "mustSplit L keys bucketSize nd \<longleftrightarrow> bucketSize < countNode L keys nd \<and> level nd < L"

text \<open>
  Modelled from the spec: ``8 sibling leaves''.  The leaf list \<open>xs\<close> starts with eight
  sibling leaves when its first eight leaves are the eight children of one node.
\<close>

definition siblingsAt :: "nat \<Rightarrow> node list \<Rightarrow> bool" where
  "siblingsAt L xs \<longleftrightarrow>
     (case xs of
        [] \<Rightarrow> False
      | nd # _ \<Rightarrow> 0 < level nd \<and> keyStart nd mod nodeRange L (level nd - 1) = 0
                  \<and> take 8 xs = children L (keyStart nd, level nd - 1))"

text \<open>Modelled from the spec: the ``combined count'' of the first eight leaves of a list.\<close>

definition combinedCount :: "nat \<Rightarrow> nat list \<Rightarrow> node list \<Rightarrow> nat" where
  "combinedCount L keys xs = sum_list (map (countNode L keys) (take 8 xs))"

text \<open>
  Modelled from the spec: the fuse decision, ``fuse any set of 8 sibling leaves whose
  combined count is below bucketSize/8''.
\<close>

definition mustFuse :: "nat \<Rightarrow> nat list \<Rightarrow> nat \<Rightarrow> node list \<Rightarrow> bool" where
  "mustFuse L keys bucketSize xs \<longleftrightarrow>
     siblingsAt L xs \<and> 8 * combinedCount L keys xs < bucketSize"

text \<open>
  Modelled from the spec: one round of split and fuse over the leaves in key order.
  Eight sibling leaves that are to be fused are replaced by their parent, a leaf that
  is to be split is replaced by its eight children, every other leaf stays.
\<close>

function rebalance :: "nat \<Rightarrow> nat list \<Rightarrow> nat \<Rightarrow> node list \<Rightarrow> node list" where
  "rebalance L keys bucketSize [] = []"
| "rebalance L keys bucketSize (nd # rest) =
     (if mustFuse L keys bucketSize (nd # rest)
      then (keyStart nd, level nd - 1) # rebalance L keys bucketSize (drop 7 rest)
      else if mustSplit L keys bucketSize nd
      then children L nd @ rebalance L keys bucketSize rest
      else nd # rebalance L keys bucketSize rest)"
  by pat_completeness auto
termination
  by (relation "measure (\<lambda>(L, keys, bucketSize, xs). length xs)") auto

text \<open>
  Modelled from the spec: the iteration of the builder.  ``Must re-run to a fixed point
  (iterate split/fuse until no node violates the count bound)''.  The loop returns the
  tree that a round leaves unchanged, and the number of rounds that changed the tree;
  \<open>None\<close> is the loop that never ends.
\<close>

partial_function (option) computeOctreeLoop ::
  "nat \<Rightarrow> nat list \<Rightarrow> nat \<Rightarrow> node list \<Rightarrow> nat \<Rightarrow> (node list \<times> nat) option" where
  "computeOctreeLoop L keys bucketSize tree rounds =
     (let tree' = rebalance L keys bucketSize tree
      in if tree' = tree then Some (tree, rounds)
         else computeOctreeLoop L keys bucketSize tree' (Suc rounds))"

declare computeOctreeLoop.simps [code]

text \<open>
  Modelled from the spec: the builder started from a given tree, ``start from the
  previous iteration's octree (warm start)''.
\<close>

definition computeOctree ::
  "nat \<Rightarrow> nat list \<Rightarrow> nat \<Rightarrow> node list \<Rightarrow> (node list \<times> nat) option" where
  "computeOctree L keys bucketSize tree = computeOctreeLoop L keys bucketSize tree 0"

text \<open>Modelled from the spec: ``the single-root tree'', whose one leaf is the root.\<close>

definition rootTree :: "node list" where
  "rootTree = [(0, 0)]"

text \<open>
  Modelled from the spec: the builder started from the single-root tree, ``start from
  ... the single-root tree''.
\<close>

definition buildOctree :: "nat \<Rightarrow> nat list \<Rightarrow> nat \<Rightarrow> (node list \<times> nat) option" where
  "buildOctree L keys bucketSize = computeOctree L keys bucketSize rootTree"

text \<open>
  Modelled from the spec: a run of leaves without gap or overlap.  \<open>chain L a xs b\<close>:
  the key ranges of the leaves \<open>xs\<close> follow one another from \<open>a\<close> to \<open>b\<close>, each starting
  where the one before ends; every leaf is a node of the octree (its level is at most
  \<open>L\<close> and its key is a multiple of the size of its range).
\<close>

fun chain :: "nat \<Rightarrow> nat \<Rightarrow> node list \<Rightarrow> nat \<Rightarrow> bool" where
  "chain L a [] b \<longleftrightarrow> a = b"
| "chain L a (nd # xs) b \<longleftrightarrow>
     keyStart nd = a \<and> level nd \<le> L \<and> a mod nodeRange L (level nd) = 0
     \<and> chain L (keyEnd L nd) xs b"

text \<open>
  Modelled from the spec: completeness.  ``a cornerstone octree's leaf key ranges
  exactly partition the full key space with no gaps and no overlaps''.
\<close>

definition cornerstone :: "nat \<Rightarrow> node list \<Rightarrow> bool" where
  "cornerstone L tree \<longleftrightarrow> chain L 0 tree (8 ^ L)"

text \<open>
  Modelled from the spec: the testable property of completeness.  ``sorted leaf ranges
  have no gaps and no overlaps'': the leaves stand in the order of their keys, the first
  range starts at key 0, the last range ends at the end of the key space, each range
  starts where the range before it ends, and no range is empty.
\<close>

definition partitionsKeySpace :: "nat \<Rightarrow> node list \<Rightarrow> bool" where
  "partitionsKeySpace L tree \<longleftrightarrow>
     tree \<noteq> [] \<and> sorted_wrt (<) (map keyStart tree)
     \<and> keyStart (hd tree) = 0 \<and> keyEnd L (last tree) = 8 ^ L
     \<and> (\<forall>i. Suc i < length tree \<longrightarrow> keyEnd L (tree ! i) = keyStart (tree ! Suc i))
     \<and> (\<forall>i < length tree. keyStart (tree ! i) < keyEnd L (tree ! i))"

text \<open>
  Notions used in the proofs about the builder: the parent of a node, a leaf whose
  parent holds more particles than the bucket size, the split decision of one leaf, and
  the invariant of the trees that the iteration reaches from the single-root tree after
  \<open>r\<close> rounds.
\<close>

definition parentOf :: "nat \<Rightarrow> node \<Rightarrow> node" where
  "parentOf L nd =
     (keyStart nd - keyStart nd mod nodeRange L (level nd - 1), level nd - 1)"

definition parentFull :: "nat \<Rightarrow> nat list \<Rightarrow> nat \<Rightarrow> node \<Rightarrow> bool" where
  "parentFull L keys bs nd \<longleftrightarrow> (0 < level nd \<longrightarrow> bs < countNode L keys (parentOf L nd))"

definition splitLeaf :: "nat \<Rightarrow> nat list \<Rightarrow> nat \<Rightarrow> node \<Rightarrow> node list" where
  "splitLeaf L keys bs nd = (if mustSplit L keys bs nd then children L nd else [nd])"

definition coldInv :: "nat \<Rightarrow> nat list \<Rightarrow> nat \<Rightarrow> nat \<Rightarrow> node list \<Rightarrow> bool" where
  "coldInv L keys bs r t \<longleftrightarrow>
     chain L 0 t (8 ^ L)
     \<and> (\<forall>nd \<in> set t. parentFull L keys bs nd)
     \<and> (\<forall>nd \<in> set t. mustSplit L keys bs nd \<longrightarrow> r \<le> level nd)"

section \<open>Example inputs\<close>

text \<open>Concrete inputs at which the theorems below are applied.\<close>

definition exampleHydro :: HydroData where
  "exampleHydro =
     \<lparr>outputFieldNames = [''x'', ''id''], outputFieldIndices = [0, 1],
      data = [OtherVector 0, IndexVector [7, 5, 7, 9]]\<rparr>"

definition exampleResize :: "nat \<Rightarrow> ParticlesData \<Rightarrow> ParticlesData" where
  "exampleResize n d = d\<lparr>d_vx := replicate n 0, d_vy := replicate n 0, d_vz := replicate n 0,
     d_h := replicate n 0, d_temp := replicate n 0, d_m := replicate n 0,
     d_du_m1 := replicate n 0, d_mue := replicate n 0, d_mui := replicate n 0,
     d_alpha := replicate n 0, d_x_m1 := replicate n 0, d_y_m1 := replicate n 0,
     d_z_m1 := replicate n 0\<rparr>"

text \<open>
  A glass block of one particle; the cuboid assembly copies the block into the middle
  layer and leaves the outer layer empty.
\<close>

definition exampleCollaborators :: "nat Collaborators" where
  "exampleCollaborators =
     \<lparr>readTemplateBlock = (\<lambda>_. Some ([1 / 2], [1 / 2], [1 / 32])),
      sortBySfcKey = (\<lambda>b. b),
      equiDistantSfcSegments = (\<lambda>r n s. (0, 1)),
      assembleCuboid = (\<lambda>ks ke b m blk c.
         if ymin b = 1 / 4
         then (fst c @ fst blk, fst (snd c) @ fst (snd blk), snd (snd c) @ snd (snd blk))
         else c),
      allreduceSum = (\<lambda>n. n),
      syncCoords = (\<lambda>r nr n c b. c),
      resize = exampleResize,
      idealGasCv = (\<lambda>a b. 1)\<rparr>"

definition emptyData :: ParticlesData where
  "emptyData = \<lparr>d_x = [], d_y = [], d_z = [], d_vx = [], d_vy = [], d_vz = [], d_h = [],
     d_temp = [], d_m = [], d_du_m1 = [], d_mue = [], d_mui = [], d_alpha = [], d_x_m1 = [],
     d_y_m1 = [], d_z_m1 = [], d_gamma = 0, d_Kcour = 0, d_minDt = 0, d_minDt_m1 = 0,
     d_alphamax = 1, d_muiConst = 10, d_numParticlesGlobal = 0\<rparr>"

text \<open>
  Three particles with the same key in a key space of depth 1, and the eight leaves the
  builder returns for them with bucket size 2.
\<close>

definition exampleKeys :: "nat list" where
  "exampleKeys = [3, 3, 3]"

definition exampleLeaves :: "node list" where
  "exampleLeaves = [(0, 1), (1, 1), (2, 1), (3, 1), (4, 1), (5, 1), (6, 1), (7, 1)]"

text \<open>
  A complete tree of depth 2 for a warm start: the first child of the root is split into
  its eight children, the other seven children of the root are leaves.
\<close>

definition exampleWarmTree :: "node list" where
  "exampleWarmTree =
     [(0, 2), (1, 2), (2, 2), (3, 2), (4, 2), (5, 2), (6, 2), (7, 2),
      (8, 1), (16, 1), (24, 1), (32, 1), (40, 1), (48, 1), (56, 1)]"

section \<open>Properties of the selection\<close>

lemma std_find_less_iff: "std_find xs a < length xs \<longleftrightarrow> a \<in> set xs"
  by (induction xs) auto

lemma std_find_nth: "a \<in> set xs \<Longrightarrow> xs ! std_find xs a = a"
  by (induction xs) auto

lemma std_find_first: "j < std_find xs a \<Longrightarrow> xs ! j \<noteq> a"
proof (induction xs arbitrary: j)
  case Nil
  then show ?case by simp
next
  case (Cons x xs)
  show ?case
  proof (cases j)
    case 0
    with Cons.prems show ?thesis by (auto split: if_splits)
  next
    case (Suc i)
    with Cons show ?thesis by (auto split: if_splits)
  qed
qed

lemma foldl_selectOne:
  "foldl (selectOne ids) acc sel =
     acc @ concat (map (\<lambda>s. if s \<in> set ids then [of_nat (std_find ids s)] else []) sel)"
proof (induction sel arbitrary: acc)
  case Nil
  show ?case by simp
next
  case (Cons s sel)
  have "foldl (selectOne ids) acc (s # sel) = foldl (selectOne ids) (selectOne ids acc s) sel"
    by simp
  also have "\<dots> = selectOne ids acc s
      @ concat (map (\<lambda>s. if s \<in> set ids then [of_nat (std_find ids s)] else []) sel)"
    by (rule Cons.IH)
  finally have eq: "foldl (selectOne ids) acc (s # sel) = selectOne ids acc s
      @ concat (map (\<lambda>s. if s \<in> set ids then [of_nat (std_find ids s)] else []) sel)" .
  show ?case
    unfolding eq by (simp add: selectOne_def Let_def std_find_less_iff)
qed

lemma unat_of_nat_index:
  fixes ids :: ParticleIndexVectorType
  assumes "length ids < 2 ^ 64" and "i < length ids"
  shows "unat (of_nat i :: 64 word) = i"
proof -
  from assms have "i < 2 ^ LENGTH(64)" by simp
  then show ?thesis by (simp add: unat_of_nat)
qed

text \<open>
  C10.  When the id column of the particle data resolves to the local id field \<open>ids\<close>
  (a vector that fits the 64-bit address space), the function returns, in the order of
  the requested ids, one entry for each requested id that occurs in \<open>ids\<close> and none
  for an id that does not occur.  The entry is the position of the first occurrence of
  the id in \<open>ids\<close>: the id stands at that position and at no earlier one.  Every
  returned entry is smaller than the size of \<open>ids\<close>.
\<close>

theorem getSelectedParticleIndexes_first_occurrences:
  assumes "localParticleIds h = Inr ids" and "length ids < 2 ^ 64"
  shows "\<exists>res. getSelectedParticleIndexes sel h = Inr res
           \<and> res = concat (map (\<lambda>s. if s \<in> set ids then [of_nat (std_find ids s)] else []) sel)
           \<and> (\<forall>s \<in> set sel. s \<in> set ids \<longrightarrow>
                 std_find ids s < length ids \<and> ids ! std_find ids s = s
                 \<and> (\<forall>j < std_find ids s. ids ! j \<noteq> s))
           \<and> (\<forall>r \<in> set res. unat r < length ids)"
proof -
  let ?res = "concat (map (\<lambda>s. if s \<in> set ids then [of_nat (std_find ids s) :: 64 word] else []) sel)"
  have run: "getSelectedParticleIndexes sel h = Inr ?res"
    using assms(1) by (simp add: getSelectedParticleIndexes_def foldl_selectOne)
  have first: "\<forall>s \<in> set sel. s \<in> set ids \<longrightarrow>
                 std_find ids s < length ids \<and> ids ! std_find ids s = s
                 \<and> (\<forall>j < std_find ids s. ids ! j \<noteq> s)"
    by (auto simp: std_find_less_iff std_find_nth dest: std_find_first)
  have bound: "\<forall>r \<in> set ?res. unat r < length ids"
  proof
    fix r :: "64 word"
    assume "r \<in> set ?res"
    then obtain s where s: "s \<in> set ids" and r: "r = of_nat (std_find ids s)"
      by (auto split: if_splits)
    from s have lt: "std_find ids s < length ids" by (simp add: std_find_less_iff)
    with assms(2) r show "unat r < length ids"
      by (simp add: unat_of_nat_index)
  qed
  from run first bound show ?thesis by blast
qed

theorem getSelectedParticleIndexes_first_occurrences_witness:
  "localParticleIds exampleHydro = Inr [7, 5, 7, 9]
   \<and> length [7, 5, 7, 9 :: 64 word] < 2 ^ 64
   \<and> getSelectedParticleIndexes [9, 4, 7] exampleHydro = Inr [3, 0]"
proof -
  have ids: "localParticleIds exampleHydro = Inr [7, 5, 7, 9]"
    by (simp add: localParticleIds_def idColumn_def exampleHydro_def)
  have len: "length [7, 5, 7, 9 :: 64 word] < 2 ^ 64" by simp
  from getSelectedParticleIndexes_first_occurrences [OF ids len, of "[9, 4, 7]"]
  have "getSelectedParticleIndexes [9, 4, 7] exampleHydro = Inr [3, 0]"
    by simp
  with ids len show ?thesis by blast
qed

section \<open>Properties of the Kelvin-Helmholtz initialisation\<close>

lemma bindE_Inr: "bindE r f = Inr v \<Longrightarrow> \<exists>u. r = Inr u \<and> f u = Inr v"
  by (cases r) (auto simp: bindE_def)

lemma init_example_returns:
  "\<exists>b d'. init exampleCollaborators ''glass'' rank numRanks 1 emptyData = Inr (b, d')"
  by (simp add: init_def Let_def mkBox_def exampleCollaborators_def emptyData_def
      exampleResize_def bindE_def mapAt_def KelvinHelmholtzConstants_def
      initKelvinHelmholtzFields_def fieldsCoverX_def fill_def)

text \<open>
  C9.  Whenever \<^verbatim>\<open>KelvinHelmholtzGlass::init\<close> returns, the box it returns is the box
  with the extents \<open>[0, 1]\<close> in x, \<open>[0, 1]\<close> in y and \<open>[0, 0.0625]\<close> in z, periodic on the
  three axes: the same value for every rank, every number of ranks, every particle
  count, every dataset and every behaviour of the functions it calls.
\<close>

theorem init_returns_the_global_box:
  assumes "init env glassBlock rank numRanks cbrtNumPart d = Inr (b, d')"
  shows "b = \<lparr>xmin = 0, xmax = 1, ymin = 0, ymax = 1, zmin = 0, zmax = 0.0625,
               boundaryX = periodic, boundaryY = periodic, boundaryZ = periodic\<rparr>"
  using assms
  by (auto simp: init_def Let_def mkBox_def split: option.splits prod.splits if_splits
      dest!: bindE_Inr)

theorem init_returns_the_global_box_witness:
  "\<exists>d1 d2.
     init exampleCollaborators ''glass'' 0 4 1 emptyData =
       Inr (\<lparr>xmin = 0, xmax = 1, ymin = 0, ymax = 1, zmin = 0, zmax = 0.0625,
             boundaryX = periodic, boundaryY = periodic, boundaryZ = periodic\<rparr>, d1)
     \<and> init exampleCollaborators ''glass'' 3 4 1 emptyData =
       Inr (\<lparr>xmin = 0, xmax = 1, ymin = 0, ymax = 1, zmin = 0, zmax = 0.0625,
             boundaryX = periodic, boundaryY = periodic, boundaryZ = periodic\<rparr>, d2)"
proof -
  obtain b1 d1 where r1: "init exampleCollaborators ''glass'' 0 4 1 emptyData = Inr (b1, d1)"
    using init_example_returns [of 0 4] by blast
  obtain b2 d2 where r2: "init exampleCollaborators ''glass'' 3 4 1 emptyData = Inr (b2, d2)"
    using init_example_returns [of 3 4] by blast
  from r1 r2 init_returns_the_global_box [OF r1] init_returns_the_global_box [OF r2]
  show ?thesis by blast
qed

section \<open>Properties of the cornerstone octree builder\<close>

subsection \<open>Key ranges and counts\<close>

lemma nodeRange_pos: "0 < nodeRange L l"
  by (simp add: nodeRange_def)

lemma nodeRange_Suc: "l < L \<Longrightarrow> nodeRange L l = 8 * nodeRange L (Suc l)"
proof -
  assume "l < L"
  then have "L - l = Suc (L - Suc l)" by simp
  then show ?thesis by (simp add: nodeRange_def)
qed

lemma lowerBound_mono: "a \<le> b \<Longrightarrow> lowerBound keys a \<le> lowerBound keys b"
  by (induction keys) (auto simp: lowerBound_def)

lemma telescope:
  fixes f :: "nat \<Rightarrow> nat"
  assumes mono: "\<And>a b. a \<le> b \<Longrightarrow> f a \<le> f b"
  shows "sum_list (map (\<lambda>i. f (a + Suc i * r) - f (a + i * r)) [0 ..< n]) = f (a + n * r) - f a"
proof (induction n)
  case 0
  show ?case by simp
next
  case (Suc n)
  have 1: "f a \<le> f (a + n * r)" by (rule mono) simp
  have 2: "f (a + n * r) \<le> f (a + Suc n * r)" by (rule mono) simp
  from Suc 1 2 show ?case by simp
qed

lemma combined_children:
  assumes "snd nd < L"
  shows "sum_list (map (countNode L keys) (children L nd)) = countNode L keys nd"
proof -
  let ?r = "nodeRange L (Suc (snd nd))"
  have "map (countNode L keys) (children L nd)
        = map (\<lambda>i. lowerBound keys (fst nd + Suc i * ?r) - lowerBound keys (fst nd + i * ?r)) [0 ..< 8]"
    by (simp add: children_def countNode_def keyEnd_def keyStart_def add_ac del: upt_Suc)
  then have "sum_list (map (countNode L keys) (children L nd))
        = lowerBound keys (fst nd + 8 * ?r) - lowerBound keys (fst nd)"
    using telescope [of "lowerBound keys" "fst nd" ?r 8] lowerBound_mono by simp
  then show ?thesis
    using assms by (simp add: countNode_def keyEnd_def keyStart_def nodeRange_Suc)
qed

lemma chain_end_unique: "chain L a xs b \<Longrightarrow> chain L a xs b' \<Longrightarrow> b = b'"
  by (induction xs arbitrary: a) auto

lemma chain_append:
  "chain L a (xs @ ys) c \<longleftrightarrow> (\<exists>b. chain L a xs b \<and> chain L b ys c)"
  by (induction xs arbitrary: a) auto


lemma chain_children_from:
  assumes "l < L" and "k mod nodeRange L (Suc l) = 0"
  shows "chain L (k + i * nodeRange L (Suc l))
           (map (\<lambda>j. (k + j * nodeRange L (Suc l), Suc l)) [i ..< i + n])
           (k + (i + n) * nodeRange L (Suc l))"
proof (induction n arbitrary: i)
  case 0
  show ?case by simp
next
  case (Suc n)
  have "[i ..< i + Suc n] = i # [Suc i ..< Suc i + n]"
    by (simp add: upt_conv_Cons)
  moreover have "(k + i * nodeRange L (Suc l)) mod nodeRange L (Suc l) = 0"
    using assms(2) by (simp add: mod_add_left_eq [symmetric])
  ultimately show ?case
    using Suc.IH [of "Suc i"] assms(1)
    by (simp add: keyStart_def keyEnd_def level_def add_ac)
qed

lemma chain_children:
  assumes "snd nd < L" and "fst nd mod nodeRange L (snd nd) = 0"
  shows "chain L (fst nd) (children L nd) (fst nd + nodeRange L (snd nd))"
proof -
  have "nodeRange L (Suc (snd nd)) dvd nodeRange L (snd nd)"
    using assms(1) by (simp add: nodeRange_Suc)
  with assms(2) have al: "fst nd mod nodeRange L (Suc (snd nd)) = 0"
    by (meson dvd_trans mod_eq_0_iff_dvd)
  from chain_children_from [OF assms(1) al, of 0 8]
  show ?thesis
    using assms(1) by (simp add: children_def nodeRange_Suc del: upt_Suc)
qed

lemma take_drop_sibling:
  assumes "siblingsAt L (nd # rest)"
  shows "nd # rest = children L (keyStart nd, level nd - 1) @ drop 7 rest"
proof -
  from assms have "take 8 (nd # rest) = children L (keyStart nd, level nd - 1)"
    by (simp add: siblingsAt_def)
  moreover have "nd # rest = take 8 (nd # rest) @ drop 8 (nd # rest)"
    by (simp only: append_take_drop_id)
  moreover have "drop 8 (nd # rest) = drop 7 rest" by simp
  ultimately show ?thesis by metis
qed

lemma rebalance_chain:
  "chain L a xs b \<Longrightarrow> chain L a (rebalance L keys bs xs) b"
proof (induction L keys bs xs arbitrary: a rule: rebalance.induct)
  case (1 L keys bs)
  then show ?case by simp
next
  case (2 L keys bs nd rest)
  from "2.prems" have hd: "keyStart nd = a" "level nd \<le> L" "a mod nodeRange L (level nd) = 0"
    and tl: "chain L (keyEnd L nd) rest b" by simp_all
  show ?case
  proof (cases "mustFuse L keys bs (nd # rest)")
    case True
    then have sib: "siblingsAt L (nd # rest)" by (simp add: mustFuse_def)
    then have pos: "0 < level nd" and al: "keyStart nd mod nodeRange L (level nd - 1) = 0"
      by (simp_all add: siblingsAt_def)
    let ?p = "(keyStart nd, level nd - 1)"
    from pos hd(2) have lt: "snd ?p < L" by simp
    have ch: "chain L (keyStart nd) (children L ?p) (keyStart nd + nodeRange L (level nd - 1))"
      using chain_children [of ?p L] lt al by simp
    from "2.prems" take_drop_sibling [OF sib]
    have "chain L a (children L ?p @ drop 7 rest) b" by simp
    then obtain m where m1: "chain L a (children L ?p) m" and m2: "chain L m (drop 7 rest) b"
      by (auto simp: chain_append)
    from m1 ch hd(1) have "m = keyStart nd + nodeRange L (level nd - 1)"
      by (auto dest: chain_end_unique)
    with m2 have "chain L (keyStart nd + nodeRange L (level nd - 1)) (drop 7 rest) b" by simp
    from "2.IH"(1) [OF True this]
    show ?thesis
      using True hd pos al by (simp add: keyStart_def keyEnd_def level_def)
  next
    case False
    show ?thesis
    proof (cases "mustSplit L keys bs nd")
      case True
      then have lt: "snd nd < L" by (simp add: mustSplit_def level_def)
      from hd have "fst nd mod nodeRange L (snd nd) = 0"
        by (simp add: keyStart_def level_def)
      from chain_children [OF lt this] hd(1)
      have "chain L a (children L nd) (keyEnd L nd)"
        by (simp add: keyStart_def keyEnd_def)
      moreover from "2.IH"(2) [OF False True tl]
      have "chain L (keyEnd L nd) (rebalance L keys bs rest) b" .
      ultimately show ?thesis
        using False True by (auto simp: chain_append)
    next
      case nosplit: False
      from "2.IH"(3) [OF False nosplit tl] hd
      show ?thesis using False nosplit by simp
    qed
  qed
qed


lemma keyStart_less_keyEnd: "keyStart nd < keyEnd L nd"
  by (simp add: keyStart_def keyEnd_def nodeRange_pos)

lemma chain_le: "chain L a xs b \<Longrightarrow> a \<le> b"
proof (induction xs arbitrary: a)
  case Nil
  then show ?case by simp
next
  case (Cons nd xs)
  then have "keyEnd L nd \<le> b" and "keyStart nd = a" by simp_all
  with keyStart_less_keyEnd [of nd L] show ?case by simp
qed

lemma chain_nodes:
  "chain L a xs b \<Longrightarrow> nd \<in> set xs \<Longrightarrow>
     level nd \<le> L \<and> keyStart nd mod nodeRange L (level nd) = 0 \<and> a \<le> keyStart nd \<and> keyEnd L nd \<le> b"
proof (induction xs arbitrary: a)
  case Nil
  then show ?case by simp
next
  case (Cons x xs)
  from Cons.prems(1) have x: "keyStart x = a" "level x \<le> L" "a mod nodeRange L (level x) = 0"
    and tl: "chain L (keyEnd L x) xs b" by simp_all
  show ?case
  proof (cases "nd = x")
    case True
    with x chain_le [OF tl] show ?thesis by simp
  next
    case False
    with Cons.prems(2) have "nd \<in> set xs" by simp
    from Cons.IH [OF tl this] x(1) keyStart_less_keyEnd [of x L]
    show ?thesis by simp
  qed
qed

lemma chain_consecutive:
  "chain L a xs b \<Longrightarrow> Suc i < length xs \<Longrightarrow> keyEnd L (xs ! i) = keyStart (xs ! Suc i)"
proof (induction xs arbitrary: a i)
  case Nil
  then show ?case by simp
next
  case (Cons x xs)
  from Cons.prems(1) have tl: "chain L (keyEnd L x) xs b" by simp
  show ?case
  proof (cases i)
    case 0
    with Cons.prems(2) obtain y ys where "xs = y # ys" by (cases xs) auto
    with tl 0 show ?thesis by simp
  next
    case (Suc j)
    with Cons.prems(2) have "Suc j < length xs" by simp
    from Cons.IH [OF tl this] Suc show ?thesis by simp
  qed
qed

lemma chain_first: "chain L a xs b \<Longrightarrow> xs \<noteq> [] \<Longrightarrow> keyStart (hd xs) = a"
  by (cases xs) auto

lemma chain_last: "chain L a xs b \<Longrightarrow> xs \<noteq> [] \<Longrightarrow> keyEnd L (last xs) = b"
  by (induction xs arbitrary: a) (auto split: if_splits)

lemma chain_holds_unique:
  "chain L a xs b \<Longrightarrow> a \<le> k \<Longrightarrow> k < b \<Longrightarrow> \<exists>!i. i < length xs \<and> holds L (xs ! i) k"
proof (induction xs arbitrary: a)
  case Nil
  then show ?case by simp
next
  case (Cons x xs)
  from Cons.prems(1) have x: "keyStart x = a" and tl: "chain L (keyEnd L x) xs b" by simp_all
  show ?case
  proof (cases "k < keyEnd L x")
    case True
    have here: "holds L ((x # xs) ! 0) k"
      using True x Cons.prems(2) by (simp add: holds_def)
    have "i = 0" if "i < length (x # xs)" and h: "holds L ((x # xs) ! i) k" for i
    proof (rule ccontr)
      assume "i \<noteq> 0"
      then obtain j where j: "i = Suc j" by (cases i) auto
      with that have "j < length xs" and "holds L (xs ! j) k" by simp_all
      then have "xs ! j \<in> set xs" and "keyStart (xs ! j) \<le> k" by (simp_all add: holds_def)
      with chain_nodes [OF tl, of "xs ! j"] True show False by simp
    qed
    with here show ?thesis by (intro ex1I [of _ 0]) auto
  next
    case False
    then have ge: "keyEnd L x \<le> k" by simp
    from Cons.IH [OF tl ge Cons.prems(3)]
    obtain j where j: "j < length xs" "holds L (xs ! j) k"
      and uniq: "\<And>j'. j' < length xs \<Longrightarrow> holds L (xs ! j') k \<Longrightarrow> j' = j"
      by (auto elim!: ex1E)
    have nothere: "\<not> holds L x k" using False by (simp add: holds_def)
    have "i = Suc j" if "i < length (x # xs)" and h: "holds L ((x # xs) ! i) k" for i
    proof (cases i)
      case 0
      with h nothere show ?thesis by simp
    next
      case (Suc j')
      with that uniq [of j'] show ?thesis by simp
    qed
    with j show ?thesis by (intro ex1I [of _ "Suc j"]) auto
  qed
qed

lemma chain_sorted: "chain L a xs b \<Longrightarrow> sorted_wrt (<) (map keyStart xs)"
proof (induction xs arbitrary: a)
  case Nil
  then show ?case by simp
next
  case (Cons x xs)
  from Cons.prems have x: "keyStart x = a" and tl: "chain L (keyEnd L x) xs b" by simp_all
  have "keyStart x < keyStart y" if "y \<in> set xs" for y
    using chain_nodes [OF tl that] keyStart_less_keyEnd [of x L] by simp
  with Cons.IH [OF tl] show ?case by auto
qed

lemma chain_nonempty: "chain L a xs b \<Longrightarrow> a < b \<Longrightarrow> xs \<noteq> []"
  by (cases xs) auto


lemma children_Cons:
  "children L nd = (fst nd, Suc (snd nd)) # map (\<lambda>i. (fst nd + i * nodeRange L (Suc (snd nd)), Suc (snd nd))) [1 ..< 8]"
proof -
  have "[0 ..< 8] = 0 # [1 ..< 8]" by (simp add: upt_conv_Cons)
  then show ?thesis by (simp add: children_def del: upt_Suc)
qed

lemma rebalance_fixed_no_split:
  "rebalance L keys bs xs = xs \<Longrightarrow> nd \<in> set xs \<Longrightarrow> \<not> mustSplit L keys bs nd"
proof (induction L keys bs xs rule: rebalance.induct)
  case (1 L keys bs)
  then show ?case by simp
next
  case (2 L keys bs x rest)
  have nofuse: "\<not> mustFuse L keys bs (x # rest)"
  proof
    assume f: "mustFuse L keys bs (x # rest)"
    then have "0 < level x" by (simp add: mustFuse_def siblingsAt_def)
    moreover from f "2.prems"(1) have "(keyStart x, level x - 1) = x" by simp
    ultimately show False by (cases x) (auto simp: level_def)
  qed
  have nosplit: "\<not> mustSplit L keys bs x"
  proof
    assume sp: "mustSplit L keys bs x"
    with nofuse "2.prems"(1) have "children L x @ rebalance L keys bs rest = x # rest" by simp
    then have "(fst x, Suc (snd x)) = x" by (simp add: children_Cons)
    then show False by (cases x) simp
  qed
  from nofuse nosplit "2.prems"(1) have tl: "rebalance L keys bs rest = rest" by simp
  show ?case
  proof (cases "nd = x")
    case True
    with nosplit show ?thesis by simp
  next
    case False
    with "2.prems"(2) have "nd \<in> set rest" by simp
    from "2.IH"(3) [OF nofuse nosplit tl this] show ?thesis .
  qed
qed

lemma takeWhile_filter_sorted:
  "sorted keys \<Longrightarrow> takeWhile (\<lambda>x. x < (k::nat)) keys = filter (\<lambda>x. x < k) keys"
proof (induction keys)
  case Nil
  show ?case by simp
next
  case (Cons x xs)
  show ?case
  proof (cases "x < k")
    case True
    with Cons show ?thesis by simp
  next
    case False
    with Cons.prems have "\<forall>y \<in> set xs. \<not> y < k" by auto
    then have "filter (\<lambda>x. x < k) xs = []" by (simp add: filter_empty_conv)
    with False show ?thesis by simp
  qed
qed

lemma length_filter_split:
  "(a::nat) \<le> b \<Longrightarrow>
     length (filter (\<lambda>x. x < b) keys)
       = length (filter (\<lambda>x. x < a) keys) + length (filter (\<lambda>x. a \<le> x \<and> x < b) keys)"
  by (induction keys) auto

lemma length_filter_range:
  "(a::nat) \<le> b \<Longrightarrow>
     length (filter (\<lambda>x. x < b) keys) - length (filter (\<lambda>x. x < a) keys)
       = length (filter (\<lambda>x. a \<le> x \<and> x < b) keys)"
  using length_filter_split [of a b keys] by simp

lemma holds_eq: "holds L nd = (\<lambda>x. keyStart nd \<le> x \<and> x < keyEnd L nd)"
  by (rule ext) (simp add: holds_def)

lemma countNode_particlesIn:
  "sorted keys \<Longrightarrow> countNode L keys nd = particlesIn L keys nd"
proof -
  assume s: "sorted keys"
  have le: "keyStart nd \<le> keyEnd L nd"
    using keyStart_less_keyEnd [of nd L] by simp
  show ?thesis
    using length_filter_range [OF le, of keys]
    by (simp add: countNode_def particlesIn_def lowerBound_def takeWhile_filter_sorted [OF s]
        holds_eq)
qed

subsection \<open>The iteration\<close>

lemma computeOctreeLoop_result:
  assumes "computeOctreeLoop L keys bs t n = Some r"
  shows "\<exists>m. fst r = (rebalance L keys bs ^^ m) t \<and> rebalance L keys bs (fst r) = fst r
             \<and> snd r = n + m"
proof (rule computeOctreeLoop.raw_induct
    [where P = "\<lambda>L keys bs t n r. \<exists>m. fst r = (rebalance L keys bs ^^ m) t
                  \<and> rebalance L keys bs (fst r) = fst r \<and> snd r = n + m", OF _ assms])
  fix loop :: "nat \<Rightarrow> nat list \<Rightarrow> nat \<Rightarrow> node list \<Rightarrow> nat \<Rightarrow> (node list \<times> nat) option"
  fix L keys bs t n r
  assume IH: "\<And>L keys bs t n r. loop L keys bs t n = Some r \<Longrightarrow>
      \<exists>m. fst r = (rebalance L keys bs ^^ m) t \<and> rebalance L keys bs (fst r) = fst r
             \<and> snd r = n + m"
  assume step: "(let tree' = rebalance L keys bs t
      in if tree' = t then Some (t, n) else loop L keys bs tree' (Suc n)) = Some r"
  show "\<exists>m. fst r = (rebalance L keys bs ^^ m) t \<and> rebalance L keys bs (fst r) = fst r
             \<and> snd r = n + m"
  proof (cases "rebalance L keys bs t = t")
    case True
    with step have "r = (t, n)" by simp
    with True show ?thesis by (intro exI [of _ 0]) simp
  next
    case False
    with step have "loop L keys bs (rebalance L keys bs t) (Suc n) = Some r"
      by (simp add: Let_def)
    from IH [OF this] obtain m where
      m: "fst r = (rebalance L keys bs ^^ m) (rebalance L keys bs t)"
         "rebalance L keys bs (fst r) = fst r" "snd r = Suc n + m"
      by blast
    have sw: "(rebalance L keys bs ^^ Suc m) t = (rebalance L keys bs ^^ m) (rebalance L keys bs t)"
      by (simp only: funpow_Suc_right o_apply)
    from m(1) sw have "fst r = (rebalance L keys bs ^^ Suc m) t" by simp
    moreover from m(3) have "snd r = n + Suc m" by simp
    ultimately show ?thesis using m(2) by blast
  qed
qed


lemma funpow_Suc_rebalance:
  "(rebalance L keys bs ^^ Suc j) t = (rebalance L keys bs ^^ j) (rebalance L keys bs t)"
  by (simp only: funpow_Suc_right o_apply)

lemma computeOctreeLoop_fixed:
  "rebalance L keys bs t = t \<Longrightarrow> computeOctreeLoop L keys bs t n = Some (t, n)"
  by (subst computeOctreeLoop.simps) (simp add: Let_def)

lemma computeOctreeLoop_step:
  "rebalance L keys bs t \<noteq> t \<Longrightarrow>
     computeOctreeLoop L keys bs t n = computeOctreeLoop L keys bs (rebalance L keys bs t) (Suc n)"
  by (subst computeOctreeLoop.simps) (simp add: Let_def)

lemma computeOctreeLoop_returns:
  assumes "rebalance L keys bs ((rebalance L keys bs ^^ m) t) = (rebalance L keys bs ^^ m) t"
  shows "\<exists>m' \<le> m. computeOctreeLoop L keys bs t n = Some ((rebalance L keys bs ^^ m') t, n + m')"
  using assms
proof (induction m arbitrary: t n)
  case 0
  then have "rebalance L keys bs t = t" by simp
  from computeOctreeLoop_fixed [OF this, of n] show ?case by simp
next
  case (Suc m)
  show ?case
  proof (cases "rebalance L keys bs t = t")
    case True
    from computeOctreeLoop_fixed [OF this, of n] show ?thesis
      by (intro exI [of _ 0]) simp
  next
    case False
    from Suc.prems
    have "rebalance L keys bs ((rebalance L keys bs ^^ m) (rebalance L keys bs t))
            = (rebalance L keys bs ^^ m) (rebalance L keys bs t)"
      by (simp only: funpow_Suc_rebalance)
    from Suc.IH [OF this, of "Suc n"] obtain m' where
      m': "m' \<le> m"
      "computeOctreeLoop L keys bs (rebalance L keys bs t) (Suc n)
         = Some ((rebalance L keys bs ^^ m') (rebalance L keys bs t), Suc n + m')"
      by blast
    from m'(2) computeOctreeLoop_step [OF False, of n]
    have "computeOctreeLoop L keys bs t n
            = Some ((rebalance L keys bs ^^ Suc m') t, n + Suc m')"
      by (simp only: funpow_Suc_rebalance add_Suc_right add_Suc)
    with m'(1) show ?thesis by (intro exI [of _ "Suc m'"]) simp
  qed
qed

lemma funpow_rebalance_chain:
  "chain L a t b \<Longrightarrow> chain L a ((rebalance L keys bs ^^ m) t) b"
proof (induction m)
  case 0
  then show ?case by simp
next
  case (Suc m)
  then have "chain L a (rebalance L keys bs ((rebalance L keys bs ^^ m) t)) b"
    by (intro rebalance_chain) simp
  then show ?case by simp
qed

subsection \<open>The iteration from the single-root tree\<close>

lemma parentFull_no_fuse:
  assumes "parentFull L keys bs nd" and "level nd \<le> L"
  shows "\<not> mustFuse L keys bs (nd # rest)"
proof
  assume f: "mustFuse L keys bs (nd # rest)"
  then have pos: "0 < level nd" and al: "keyStart nd mod nodeRange L (level nd - 1) = 0"
    and tk: "take 8 (nd # rest) = children L (keyStart nd, level nd - 1)"
    and small: "8 * combinedCount L keys (nd # rest) < bs"
    by (simp_all add: mustFuse_def siblingsAt_def)
  let ?p = "(keyStart nd, level nd - 1)"
  from al have p: "parentOf L nd = ?p" by (simp add: parentOf_def)
  from pos assms(2) have "snd ?p < L" by simp
  from combined_children [OF this, of keys] tk
  have "combinedCount L keys (nd # rest) = countNode L keys ?p"
    by (simp add: combinedCount_def)
  with assms(1) pos p have "bs < combinedCount L keys (nd # rest)"
    by (simp add: parentFull_def)
  with small show False by simp
qed

lemma rebalance_split_only:
  assumes "\<forall>nd \<in> set xs. parentFull L keys bs nd \<and> level nd \<le> L"
  shows "rebalance L keys bs xs = concat (map (splitLeaf L keys bs) xs)"
  using assms
proof (induction xs)
  case Nil
  show ?case by simp
next
  case (Cons x xs)
  then have "\<not> mustFuse L keys bs (x # xs)"
    by (intro parentFull_no_fuse) simp_all
  with Cons show ?case by (simp add: splitLeaf_def)
qed

lemma child_props:
  assumes "level nd < L" and "keyStart nd mod nodeRange L (level nd) = 0"
    and "c \<in> set (children L nd)"
  shows "level c = Suc (level nd) \<and> parentOf L c = nd"
proof -
  let ?r = "nodeRange L (Suc (level nd))"
  from assms(3) obtain i where i: "i < 8" and c: "c = (fst nd + i * ?r, Suc (snd nd))"
    by (auto simp: children_def level_def)
  from assms(1) have r8: "nodeRange L (level nd) = 8 * ?r" by (rule nodeRange_Suc)
  have rpos: "0 < ?r" by (rule nodeRange_pos)
  from i rpos have lt: "i * ?r < 8 * ?r" by simp
  from assms(2) r8 have "fst nd mod (8 * ?r) = 0" by (simp add: keyStart_def)
  then have "(fst nd + i * ?r) mod (8 * ?r) = (i * ?r) mod (8 * ?r)"
    by (simp add: mod_add_left_eq [symmetric, of "fst nd"])
  with lt have "(fst nd + i * ?r) mod (8 * ?r) = i * ?r" by simp
  with c r8 show ?thesis
    by (simp add: parentOf_def level_def keyStart_def)
qed

lemma coldInv_root: "coldInv L keys bs 0 rootTree"
  by (simp add: coldInv_def rootTree_def keyStart_def keyEnd_def level_def nodeRange_def
      parentFull_def)

lemma coldInv_step:
  assumes "coldInv L keys bs r t"
  shows "coldInv L keys bs (Suc r) (rebalance L keys bs t)"
proof -
  from assms have ch: "chain L 0 t (8 ^ L)"
    and pf: "\<forall>nd \<in> set t. parentFull L keys bs nd"
    and dp: "\<forall>nd \<in> set t. mustSplit L keys bs nd \<longrightarrow> r \<le> level nd"
    by (simp_all add: coldInv_def)
  have lv: "\<forall>nd \<in> set t. level nd \<le> L \<and> keyStart nd mod nodeRange L (level nd) = 0"
    using chain_nodes [OF ch] by blast
  from pf lv have eq: "rebalance L keys bs t = concat (map (splitLeaf L keys bs) t)"
    by (intro rebalance_split_only) simp
  have props: "parentFull L keys bs c \<and> (mustSplit L keys bs c \<longrightarrow> Suc r \<le> level c)"
    if "c \<in> set (rebalance L keys bs t)" for c
  proof -
    from that eq obtain nd where nd: "nd \<in> set t" and c: "c \<in> set (splitLeaf L keys bs nd)"
      by auto
    show ?thesis
    proof (cases "mustSplit L keys bs nd")
      case True
      then have lt: "level nd < L" and full: "bs < countNode L keys nd"
        by (simp_all add: mustSplit_def)
      from lv nd have al: "keyStart nd mod nodeRange L (level nd) = 0" by simp
      from True c have "c \<in> set (children L nd)" by (simp add: splitLeaf_def)
      from child_props [OF lt al this] have "level c = Suc (level nd)" "parentOf L c = nd"
        by simp_all
      moreover from dp nd True have "r \<le> level nd" by simp
      ultimately show ?thesis using full by (simp add: parentFull_def)
    next
      case False
      with c have "c = nd" by (simp add: splitLeaf_def)
      with False pf nd show ?thesis by simp
    qed
  qed
  from rebalance_chain [OF ch] props show ?thesis
    by (simp add: coldInv_def)
qed

lemma coldInv_funpow: "coldInv L keys bs r ((rebalance L keys bs ^^ r) rootTree)"
proof (induction r)
  case 0
  show ?case using coldInv_root by simp
next
  case (Suc r)
  from coldInv_step [OF Suc] show ?case by simp
qed

lemma coldInv_fixed:
  assumes "coldInv L keys bs L t"
  shows "rebalance L keys bs t = t"
proof -
  from assms have ch: "chain L 0 t (8 ^ L)"
    and pf: "\<forall>nd \<in> set t. parentFull L keys bs nd"
    and dp: "\<forall>nd \<in> set t. mustSplit L keys bs nd \<longrightarrow> L \<le> level nd"
    by (simp_all add: coldInv_def)
  have lv: "\<forall>nd \<in> set t. level nd \<le> L"
    using chain_nodes [OF ch] by blast
  from pf lv have eq: "rebalance L keys bs t = concat (map (splitLeaf L keys bs) t)"
    by (intro rebalance_split_only) simp
  from dp have "\<forall>nd \<in> set t. \<not> mustSplit L keys bs nd"
    by (auto simp: mustSplit_def)
  then have "map (splitLeaf L keys bs) t = map (\<lambda>nd. [nd]) t"
    by (simp add: splitLeaf_def)
  with eq show ?thesis by simp
qed

lemma buildOctree_returns:
  "\<exists>m \<le> L. buildOctree L keys bs = Some ((rebalance L keys bs ^^ m) rootTree, m)"
proof -
  have "rebalance L keys bs ((rebalance L keys bs ^^ L) rootTree)
          = (rebalance L keys bs ^^ L) rootTree"
    by (rule coldInv_fixed) (rule coldInv_funpow)
  from computeOctreeLoop_returns [OF this, of 0]
  show ?thesis by (simp add: buildOctree_def computeOctree_def)
qed

subsection \<open>The tree the builder returns\<close>

lemma cornerstone_rootTree: "cornerstone L rootTree"
  by (simp add: cornerstone_def rootTree_def keyStart_def keyEnd_def level_def nodeRange_def)

lemma computeOctree_cornerstone:
  assumes "cornerstone L tree0" and "computeOctree L keys bs tree0 = Some (tree, rounds)"
  shows "cornerstone L tree \<and> rebalance L keys bs tree = tree"
proof -
  from computeOctreeLoop_result [of L keys bs tree0 0 "(tree, rounds)"] assms(2)
  obtain m where "tree = (rebalance L keys bs ^^ m) tree0" "rebalance L keys bs tree = tree"
    by (auto simp: computeOctree_def)
  with funpow_rebalance_chain [where L = L and a = 0 and t = tree0 and b = "8 ^ L"
      and keys = keys and bs = bs and m = m] assms(1)
  show ?thesis by (simp add: cornerstone_def)
qed

lemma cornerstone_partitions:
  assumes "cornerstone L tree"
  shows "partitionsKeySpace L tree"
    and "\<forall>k < 8 ^ L. \<exists>!i. i < length tree \<and> holds L (tree ! i) k"
proof -
  from assms have ch: "chain L 0 tree (8 ^ L)" by (simp add: cornerstone_def)
  have ne: "tree \<noteq> []" by (rule chain_nonempty [OF ch]) simp
  show "partitionsKeySpace L tree"
    unfolding partitionsKeySpace_def
    using ne chain_sorted [OF ch] chain_first [OF ch ne] chain_last [OF ch ne]
      chain_consecutive [OF ch] keyStart_less_keyEnd
    by blast
  show "\<forall>k < 8 ^ L. \<exists>!i. i < length tree \<and> holds L (tree ! i) k"
    using chain_holds_unique [OF ch] by simp
qed

lemma fixed_bucket_bound:
  assumes "cornerstone L tree" and "rebalance L keys bs tree = tree" and "sorted keys"
    and "nd \<in> set tree" and "bs < particlesIn L keys nd"
  shows "level nd = L"
proof -
  from assms(1) have ch: "chain L 0 tree (8 ^ L)" by (simp add: cornerstone_def)
  from chain_nodes [OF ch assms(4)] have le: "level nd \<le> L" by simp
  from rebalance_fixed_no_split [OF assms(2) assms(4)]
  have "\<not> mustSplit L keys bs nd" .
  with assms(5) countNode_particlesIn [OF assms(3), of L nd] have "\<not> level nd < L"
    by (simp add: mustSplit_def)
  with le show ?thesis by simp
qed

lemma buildOctree_Some:
  "\<exists>tree rounds. buildOctree L keys bs = Some (tree, rounds) \<and> rounds \<le> L
      \<and> cornerstone L tree \<and> rebalance L keys bs tree = tree"
proof -
  from buildOctree_returns [of L keys bs] obtain m where
    m: "m \<le> L" "buildOctree L keys bs = Some ((rebalance L keys bs ^^ m) rootTree, m)"
    by blast
  from m(2) have "computeOctree L keys bs rootTree = Some ((rebalance L keys bs ^^ m) rootTree, m)"
    by (simp add: buildOctree_def)
  from computeOctree_cornerstone [OF cornerstone_rootTree this] m show ?thesis by blast
qed

text \<open>
  C1.  For every key array and every bucket size, the builder started from the
  single-root tree returns a tree, and the key ranges of the leaves of the returned tree
  partition the key space: the leaves stand in key order, the first range starts at key
  0, every range starts where the range before it ends (no gap, no overlap), the last
  range ends at the end of the key space, and every key of the key space, in particular
  every particle's key, lies in the range of exactly one leaf.  The same holds for the
  tree that the builder returns from a warm start with any complete tree.
\<close>

theorem builder_leaves_partition_key_space:
  "(\<exists>tree rounds. buildOctree L keys bucketSize = Some (tree, rounds)
       \<and> partitionsKeySpace L tree
       \<and> (\<forall>k < 8 ^ L. \<exists>!i. i < length tree \<and> holds L (tree ! i) k))
   \<and> (\<forall>tree0 tree rounds.
         cornerstone L tree0 \<and> computeOctree L keys bucketSize tree0 = Some (tree, rounds) \<longrightarrow>
           partitionsKeySpace L tree
           \<and> (\<forall>k < 8 ^ L. \<exists>!i. i < length tree \<and> holds L (tree ! i) k))"
proof -
  from buildOctree_Some [of L keys bucketSize] obtain tree rounds where
    "buildOctree L keys bucketSize = Some (tree, rounds)" "cornerstone L tree" by blast
  with cornerstone_partitions [of L tree]
  have cold: "\<exists>tree rounds. buildOctree L keys bucketSize = Some (tree, rounds)
       \<and> partitionsKeySpace L tree
       \<and> (\<forall>k < 8 ^ L. \<exists>!i. i < length tree \<and> holds L (tree ! i) k)"
    by blast
  have warm: "partitionsKeySpace L tree
           \<and> (\<forall>k < 8 ^ L. \<exists>!i. i < length tree \<and> holds L (tree ! i) k)"
    if "cornerstone L tree0 \<and> computeOctree L keys bucketSize tree0 = Some (tree, rounds)"
    for tree0 tree rounds
  proof -
    from that have c: "cornerstone L tree" using computeOctree_cornerstone by blast
    from cornerstone_partitions [OF c] show ?thesis by (rule conjI)
  qed
  show ?thesis
  proof (intro conjI)
    show "\<exists>tree rounds. buildOctree L keys bucketSize = Some (tree, rounds)
       \<and> partitionsKeySpace L tree
       \<and> (\<forall>k < 8 ^ L. \<exists>!i. i < length tree \<and> holds L (tree ! i) k)"
      by (rule cold)
    show "\<forall>tree0 tree rounds.
         cornerstone L tree0 \<and> computeOctree L keys bucketSize tree0 = Some (tree, rounds) \<longrightarrow>
           partitionsKeySpace L tree
           \<and> (\<forall>k < 8 ^ L. \<exists>!i. i < length tree \<and> holds L (tree ! i) k)"
      by (intro allI impI) (rule warm)
  qed
qed

lemma buildOctree_example: "buildOctree 1 exampleKeys 2 = Some (exampleLeaves, 1)"
  by code_simp

lemma cornerstone_exampleWarmTree: "cornerstone 2 exampleWarmTree"
  by code_simp

lemma computeOctree_warm_example: "computeOctree 2 [5] 9 exampleWarmTree = Some (rootTree, 2)"
  by code_simp

theorem builder_leaves_partition_key_space_witness:
  "buildOctree 1 exampleKeys 2 = Some (exampleLeaves, 1)
   \<and> partitionsKeySpace 1 exampleLeaves
   \<and> (\<exists>!i. i < length exampleLeaves \<and> holds 1 (exampleLeaves ! i) 3)
   \<and> cornerstone 2 exampleWarmTree
   \<and> computeOctree 2 [5] 9 exampleWarmTree = Some (rootTree, 2)
   \<and> partitionsKeySpace 2 rootTree"
proof -
  from builder_leaves_partition_key_space [of 1 exampleKeys 2] obtain tree rounds where
    t: "buildOctree 1 exampleKeys 2 = Some (tree, rounds)" "partitionsKeySpace 1 tree"
       "\<forall>k < 8 ^ 1. \<exists>!i. i < length tree \<and> holds 1 (tree ! i) k"
    by blast
  from t(1) buildOctree_example have eq: "tree = exampleLeaves" by simp
  have "(3::nat) < 8 ^ 1" by simp
  with t(3) have "\<exists>!i. i < length tree \<and> holds 1 (tree ! i) 3" by blast
  with t(2) eq have cold: "partitionsKeySpace 1 exampleLeaves
      \<and> (\<exists>!i. i < length exampleLeaves \<and> holds 1 (exampleLeaves ! i) 3)"
    by simp
  from builder_leaves_partition_key_space [of 2 "[5]" 9]
    cornerstone_exampleWarmTree computeOctree_warm_example
  have warm: "partitionsKeySpace 2 rootTree" by blast
  from cold warm buildOctree_example cornerstone_exampleWarmTree computeOctree_warm_example
  show ?thesis by blast
qed

lemma particlesIn_replicate:
  "particlesIn L (replicate n k) nd = (if holds L nd k then n else 0)"
  by (simp add: particlesIn_def)

lemma repeated_key_tree:
  assumes k: "k < 8 ^ L" and big: "bs < n"
  shows "\<exists>tree rounds i.
         buildOctree L (replicate n k) bs = Some (tree, rounds)
         \<and> i < length tree \<and> level (tree ! i) = L
         \<and> particlesIn L (replicate n k) (tree ! i) = n
         \<and> (\<forall>j < length tree. j \<noteq> i \<longrightarrow> particlesIn L (replicate n k) (tree ! j) = 0)"
proof -
  let ?keys = "replicate n k"
  have srt: "sorted ?keys" by (rule sorted_replicate)
  from buildOctree_Some [of L ?keys bs] obtain tree rounds where
    t: "buildOctree L ?keys bs = Some (tree, rounds)" "cornerstone L tree"
       "rebalance L ?keys bs tree = tree" by blast
  from cornerstone_partitions(2) [OF t(2)] k
  have ex1: "\<exists>!i. i < length tree \<and> holds L (tree ! i) k" by simp
  then obtain i where i: "i < length tree" "holds L (tree ! i) k"
    unfolding Ex1_def by blast
  have uniq: "j = i" if "j < length tree" and "holds L (tree ! j) k" for j
    using ex1 i that unfolding Ex1_def by blast
  from i(2) have full: "particlesIn L ?keys (tree ! i) = n"
    by (simp add: particlesIn_replicate)
  from i(1) have "tree ! i \<in> set tree" by simp
  from fixed_bucket_bound [OF t(2) t(3) srt this] full big
  have lv: "level (tree ! i) = L" by simp
  have "particlesIn L ?keys (tree ! j) = 0" if "j < length tree" and "j \<noteq> i" for j
  proof -
    from that uniq [of j] have "\<not> holds L (tree ! j) k" by blast
    then show ?thesis by (simp add: particlesIn_replicate)
  qed
  then have "\<forall>j < length tree. j \<noteq> i \<longrightarrow> particlesIn L ?keys (tree ! j) = 0"
    by blast
  with t(1) i(1) lv full show ?thesis by blast
qed

text \<open>
  C4.  For every sorted key array and every bucket size, the tree the builder returns
  (from the single-root tree, where it always returns one, or from a warm start with
  any complete tree) has no leaf that holds more particles than the bucket size, except
  leaves at the maximum depth \<open>L\<close>.  In particular, for one key repeated 10000 times and
  bucket size 100 the builder returns a tree in which one leaf, at the maximum depth,
  holds all 10000 particles and every other leaf holds none: the over-full leaf is part
  of the result, and the builder returns.
\<close>

theorem builder_bucket_bound:
  assumes "sorted keys"
  shows "(\<exists>tree rounds. buildOctree L keys bucketSize = Some (tree, rounds)
            \<and> (\<forall>nd \<in> set tree. bucketSize < particlesIn L keys nd \<longrightarrow> level nd = L))
   \<and> (\<forall>tree0 tree rounds.
         cornerstone L tree0 \<and> computeOctree L keys bucketSize tree0 = Some (tree, rounds) \<longrightarrow>
           (\<forall>nd \<in> set tree. bucketSize < particlesIn L keys nd \<longrightarrow> level nd = L))
   \<and> (\<forall>k < 8 ^ L. \<exists>tree rounds i.
         buildOctree L (replicate 10000 k) 100 = Some (tree, rounds)
         \<and> i < length tree \<and> level (tree ! i) = L
         \<and> particlesIn L (replicate 10000 k) (tree ! i) = 10000
         \<and> (\<forall>j < length tree. j \<noteq> i \<longrightarrow> particlesIn L (replicate 10000 k) (tree ! j) = 0))"
proof (intro conjI)
  from buildOctree_Some [of L keys bucketSize] obtain tree rounds where
    t: "buildOctree L keys bucketSize = Some (tree, rounds)" "cornerstone L tree"
       "rebalance L keys bucketSize tree = tree" by blast
  from fixed_bucket_bound [OF t(2) t(3) assms] t(1)
  show "\<exists>tree rounds. buildOctree L keys bucketSize = Some (tree, rounds)
            \<and> (\<forall>nd \<in> set tree. bucketSize < particlesIn L keys nd \<longrightarrow> level nd = L)"
    by blast
next
  have warm: "\<forall>nd \<in> set tree. bucketSize < particlesIn L keys nd \<longrightarrow> level nd = L"
    if "cornerstone L tree0 \<and> computeOctree L keys bucketSize tree0 = Some (tree, rounds)"
    for tree0 tree rounds
  proof -
    from that have "cornerstone L tree \<and> rebalance L keys bucketSize tree = tree"
      using computeOctree_cornerstone by blast
    with fixed_bucket_bound [of L tree keys bucketSize] assms
    show ?thesis by blast
  qed
  show "\<forall>tree0 tree rounds.
         cornerstone L tree0 \<and> computeOctree L keys bucketSize tree0 = Some (tree, rounds) \<longrightarrow>
           (\<forall>nd \<in> set tree. bucketSize < particlesIn L keys nd \<longrightarrow> level nd = L)"
    by (intro allI impI) (rule warm)
next
  have big: "(100::nat) < 10000" by simp
  show "\<forall>k < 8 ^ L. \<exists>tree rounds i.
         buildOctree L (replicate 10000 k) 100 = Some (tree, rounds)
         \<and> i < length tree \<and> level (tree ! i) = L
         \<and> particlesIn L (replicate 10000 k) (tree ! i) = 10000
         \<and> (\<forall>j < length tree. j \<noteq> i \<longrightarrow> particlesIn L (replicate 10000 k) (tree ! j) = 0)"
    by (intro allI impI) (rule repeated_key_tree [OF _ big])
qed

lemma computeOctree_warm_full_leaf:
  "computeOctree 2 [5, 5, 5] 2 exampleWarmTree = Some (exampleWarmTree, 0)"
  by code_simp

theorem builder_bucket_bound_witness:
  "sorted exampleKeys
   \<and> buildOctree 1 exampleKeys 2 = Some (exampleLeaves, 1)
   \<and> particlesIn 1 exampleKeys (3, 1) = 3
   \<and> level (3, 1) = 1
   \<and> sorted [5, 5, 5 :: nat]
   \<and> cornerstone 2 exampleWarmTree
   \<and> computeOctree 2 [5, 5, 5] 2 exampleWarmTree = Some (exampleWarmTree, 0)
   \<and> particlesIn 2 [5, 5, 5] (5, 2) = 3
   \<and> level (5, 2) = 2"
proof -
  have srt: "sorted exampleKeys" by (simp add: exampleKeys_def)
  from builder_bucket_bound [OF srt, of 1 2] obtain tree rounds where
    t: "buildOctree 1 exampleKeys 2 = Some (tree, rounds)"
       "\<forall>nd \<in> set tree. 2 < particlesIn 1 exampleKeys nd \<longrightarrow> level nd = 1"
    by blast
  from t(1) buildOctree_example have eq: "tree = exampleLeaves" by simp
  have cnt: "particlesIn 1 exampleKeys (3, 1) = 3" by code_simp
  have "(3, 1) \<in> set exampleLeaves" by (simp add: exampleLeaves_def)
  with t(2) eq cnt have lv: "level (3, 1) = 1" by simp
  have srt5: "sorted [5, 5, 5 :: nat]" by simp
  from builder_bucket_bound [OF srt5, of 2 2]
    cornerstone_exampleWarmTree computeOctree_warm_full_leaf
  have w: "\<forall>nd \<in> set exampleWarmTree. 2 < particlesIn 2 [5, 5, 5] nd \<longrightarrow> level nd = 2"
    by blast
  have cnt5: "particlesIn 2 [5, 5, 5] (5, 2) = 3" by code_simp
  have "(5, 2) \<in> set exampleWarmTree" by (simp add: exampleWarmTree_def)
  with w cnt5 have lv5: "level (5, 2) = 2" by simp
  from srt buildOctree_example cnt lv srt5 cornerstone_exampleWarmTree
    computeOctree_warm_full_leaf cnt5 lv5
  show ?thesis by blast
qed

end
